theory Spec2Isabelle
  imports Main
begin

section \<open>Data model of src/index.js\<close>

text \<open>
  The hook \<^verbatim>\<open>useLazyScriptLoader(scriptUrl)\<close> keeps three state cells per hook instance and
  shares one module-level \<^verbatim>\<open>Map\<close>, \<^verbatim>\<open>_scriptStates\<close>, from script URL to a record object.
  The embedding passes the whole mutable world explicitly:
  \<^item> \<open>scriptStates\<close> is the \<^verbatim>\<open>Map\<close>; it holds references, so its values are addresses;
  \<^item> \<open>records\<close> is the store of record objects (\<^verbatim>\<open>newRecord\<close>), because \<^verbatim>\<open>handleLoad\<close> and
    \<^verbatim>\<open>handleError\<close> mutate the record they closed over, not the one found in the \<^verbatim>\<open>Map\<close>;
  \<^item> \<open>elements\<close> lists every script element made by \<^verbatim>\<open>document.createElement\<close>, in order of
    creation; an element is named by its index, and the record created with it lives at
    the same address;
  \<^item> \<open>head\<close> is the child list of \<^verbatim>\<open>document.head\<close>, the only DOM node the code touches, so
    \<^verbatim>\<open>scriptElement.parentElement\<close> is non-null exactly for the members of \<open>head\<close>;
  \<^item> \<open>hooks\<close> holds the \<^verbatim>\<open>useState\<close> cells of the hook instances that have rendered.
  A hook instance is named by a natural number, which also names the \<^verbatim>\<open>subscriber\<close>
  closure that the instance's running effect created (React runs the cleanup of an effect
  before the next effect of the same instance).
\<close>

datatype js_error = Error string

datatype status = Status_loading | Status_loaded | Status_error

record hook_state =
  isLoading :: bool
  error :: "js_error option"
  isLoaded :: bool

record status_update =
  loaded :: bool
  errorObj :: "js_error option"

record script_element =
  src :: string
  async :: bool

record script_record =
  status :: status
  scriptElement :: nat
  subscribers :: "nat list"
  recordError :: "js_error option"

record world =
  scriptStates :: "string \<rightharpoonup> nat"
  records :: "nat \<Rightarrow> script_record"
  elements :: "script_element list"
  head :: "nat list"
  hooks :: "nat \<rightharpoonup> hook_state"

text \<open>The world at module load: an empty \<^verbatim>\<open>Map\<close>, an empty head, nothing rendered.\<close>

definition initial_world :: world where
  "initial_world =
     \<lparr>scriptStates = Map.empty,
      records = (\<lambda>a. \<lparr>status = Status_loading, scriptElement = a, subscribers = [],
                      recordError = None\<rparr>),
      elements = [],
      head = [],
      hooks = Map.empty\<rparr>"

subsection \<open>The state cells (lines 6 to 8) and the render result (line 110)\<close>

text \<open>\<^verbatim>\<open>useState(true)\<close>, \<^verbatim>\<open>useState(null)\<close>, \<^verbatim>\<open>useState(false)\<close>.\<close>

definition useState_initial :: hook_state where
  "useState_initial = \<lparr>isLoading = True, error = None, isLoaded = False\<rparr>"

definition cells :: "nat \<Rightarrow> world \<Rightarrow> hook_state" where
  "cells h w = (case hooks w h of None \<Rightarrow> useState_initial | Some s \<Rightarrow> s)"

definition setIsLoading :: "nat \<Rightarrow> bool \<Rightarrow> world \<Rightarrow> world" where
  "setIsLoading h v w = w\<lparr>hooks := (hooks w)(h \<mapsto> (cells h w)\<lparr>isLoading := v\<rparr>)\<rparr>"

definition setError :: "nat \<Rightarrow> js_error option \<Rightarrow> world \<Rightarrow> world" where
  "setError h v w = w\<lparr>hooks := (hooks w)(h \<mapsto> (cells h w)\<lparr>error := v\<rparr>)\<rparr>"

definition setIsLoaded :: "nat \<Rightarrow> bool \<Rightarrow> world \<Rightarrow> world" where
  "setIsLoaded h v w = w\<lparr>hooks := (hooks w)(h \<mapsto> (cells h w)\<lparr>isLoaded := v\<rparr>)\<rparr>"

text \<open>
  The render phase of the hook: the first render of an instance allocates its cells with
  the \<^verbatim>\<open>useState\<close> initial values, every render returns
  \<^verbatim>\<open>{ isLoading, error, isLoaded }\<close>. The effect runs after the render.
\<close>

definition useLazyScriptLoader :: "nat \<Rightarrow> string option \<Rightarrow> world \<Rightarrow> hook_state \<times> world" where
  "useLazyScriptLoader h scriptUrl w =
     (case hooks w h of
        None \<Rightarrow> (useState_initial, w\<lparr>hooks := (hooks w)(h \<mapsto> useState_initial)\<rparr>)
      | Some s \<Rightarrow> (s, w))"

subsection \<open>The subscriber closure (lines 18 to 32)\<close>

text \<open>
  \<open>subscriber\<close> gives the world after the three setter calls of the branch taken. The
  worlds between the calls, which a render can see when the closure is called from a
  handler, are the stages defined after the handlers.
\<close>

definition subscriber :: "nat \<Rightarrow> status_update \<Rightarrow> world \<Rightarrow> world" where
  "subscriber h statusUpdate w =
     (if loaded statusUpdate then
        setError h None (setIsLoaded h True (setIsLoading h False w))
      else if errorObj statusUpdate \<noteq> None then
        setError h (errorObj statusUpdate) (setIsLoaded h False (setIsLoading h False w))
      else
        setError h None (setIsLoaded h False (setIsLoading h True w)))"

subsection \<open>The JavaScript \<^verbatim>\<open>Set\<close> of subscribers\<close>

text \<open>
  A \<^verbatim>\<open>Set\<close> keeps insertion order and no duplicates: \<^verbatim>\<open>add\<close> of a member changes nothing,
  \<^verbatim>\<open>delete\<close> removes the member, \<^verbatim>\<open>size\<close> is the length, \<^verbatim>\<open>forEach\<close> visits in order.
\<close>

definition Set_add :: "nat \<Rightarrow> nat list \<Rightarrow> nat list" where
  "Set_add s xs = (if s \<in> set xs then xs else xs @ [s])"

definition Set_delete :: "nat \<Rightarrow> nat list \<Rightarrow> nat list" where
  "Set_delete s xs = removeAll s xs"

definition forEach :: "nat list \<Rightarrow> (nat \<Rightarrow> world \<Rightarrow> world) \<Rightarrow> world \<Rightarrow> world" where
  "forEach xs f w = fold f xs w"

subsection \<open>The completion handlers (lines 76 to 87)\<close>

text \<open>
  Both handlers close over \<^verbatim>\<open>newRecord\<close> (here its address) and \<^verbatim>\<open>handleError\<close> also over
  \<^verbatim>\<open>scriptUrl\<close>; the event argument is ignored by the source. A member of the \<^verbatim>\<open>Set\<close> is
  the name of a hook instance, and calling it runs that instance's \<open>subscriber\<close>.
\<close>

definition handleLoad :: "nat \<Rightarrow> world \<Rightarrow> world" where
  "handleLoad a w =
     (let w1 = w\<lparr>records := (records w)(a := (records w a)\<lparr>status := Status_loaded\<rparr>)\<rparr>
      in forEach (subscribers (records w1 a))
           (\<lambda>sub. subscriber sub \<lparr>loaded = True, errorObj = None\<rparr>) w1)"

definition handleError :: "nat \<Rightarrow> string \<Rightarrow> world \<Rightarrow> world" where
  "handleError a scriptUrl w =
     (let err = Error (''Failed to load script: '' @ scriptUrl);
          w1 = w\<lparr>records := (records w)(a := (records w a)
                  \<lparr>status := Status_error, recordError := Some err\<rparr>)\<rparr>
      in forEach (subscribers (records w1 a))
           (\<lambda>sub. subscriber sub \<lparr>loaded = False, errorObj = Some err\<rparr>) w1)"

subsection \<open>Renders between the setter calls of a handler\<close>

text \<open>
  React runs an effect inside its own batch, so the three setter calls of the effect take
  hold together before the next render. \<^verbatim>\<open>handleLoad\<close> and \<^verbatim>\<open>handleError\<close> are listeners of a
  DOM event and run outside React; there React 16 and 17 render again after every setter
  call, so a render can return what the cells hold between two of the three calls of
  \<open>subscriber\<close>. The stages of a handler are the worlds such a render can see, in order: the
  world after the status has been set, then the world after each setter call of each
  subscriber. The last stage is the world the handler leaves. The model lets a render,
  and nothing else, fall between two stages.
\<close>

definition subscriber_stages :: "nat \<Rightarrow> status_update \<Rightarrow> world \<Rightarrow> world list" where
  "subscriber_stages h statusUpdate w =
     (if loaded statusUpdate then
        [setIsLoading h False w,
         setIsLoaded h True (setIsLoading h False w),
         setError h None (setIsLoaded h True (setIsLoading h False w))]
      else if errorObj statusUpdate \<noteq> None then
        [setIsLoading h False w,
         setIsLoaded h False (setIsLoading h False w),
         setError h (errorObj statusUpdate) (setIsLoaded h False (setIsLoading h False w))]
      else
        [setIsLoading h True w,
         setIsLoaded h False (setIsLoading h True w),
         setError h None (setIsLoaded h False (setIsLoading h True w))])"

fun forEach_stages :: "nat list \<Rightarrow> status_update \<Rightarrow> world \<Rightarrow> world list" where
  "forEach_stages [] statusUpdate w = []"
| "forEach_stages (sub # subs) statusUpdate w =
     subscriber_stages sub statusUpdate w
     @ forEach_stages subs statusUpdate (subscriber sub statusUpdate w)"

definition handleLoad_stages :: "nat \<Rightarrow> world \<Rightarrow> world list" where
  "handleLoad_stages a w =
     (let w1 = w\<lparr>records := (records w)(a := (records w a)\<lparr>status := Status_loaded\<rparr>)\<rparr>
      in w1 # forEach_stages (subscribers (records w1 a))
                \<lparr>loaded = True, errorObj = None\<rparr> w1)"

definition handleError_stages :: "nat \<Rightarrow> string \<Rightarrow> world \<Rightarrow> world list" where
  "handleError_stages a scriptUrl w =
     (let err = Error (''Failed to load script: '' @ scriptUrl);
          w1 = w\<lparr>records := (records w)(a := (records w a)
                  \<lparr>status := Status_error, recordError := Some err\<rparr>)\<rparr>
      in w1 # forEach_stages (subscribers (records w1 a))
                \<lparr>loaded = False, errorObj = Some err\<rparr> w1)"

subsection \<open>The effect (lines 10 to 93)\<close>

text \<open>
  \<^verbatim>\<open>!scriptUrl\<close> holds for \<^verbatim>\<open>null\<close>, \<^verbatim>\<open>undefined\<close> (both \<open>None\<close>) and the empty string.
\<close>

definition falsy :: "string option \<Rightarrow> bool" where
  "falsy scriptUrl = (case scriptUrl of None \<Rightarrow> True | Some u \<Rightarrow> u = [])"

text \<open>The branch for a URL that has a record in the \<^verbatim>\<open>Map\<close> (lines 36 to 57).\<close>

definition effect_existing :: "nat \<Rightarrow> nat \<Rightarrow> world \<Rightarrow> world" where
  "effect_existing h a w =
     (case status (records w a) of
        Status_loaded \<Rightarrow>
          setError h None (setIsLoaded h True (setIsLoading h False w))
      | Status_error \<Rightarrow>
          setError h (recordError (records w a)) (setIsLoaded h False (setIsLoading h False w))
      | Status_loading \<Rightarrow>
          (let w1 = setError h None (setIsLoaded h False (setIsLoading h True w))
           in w1\<lparr>records := (records w1)(a := (records w1 a)
                   \<lparr>subscribers := Set_add h (subscribers (records w1 a))\<rparr>)\<rparr>))"

text \<open>
  The branch for a new script (lines 58 to 93): the element is created, the record is
  stored under the URL, the two listeners are attached (they are \<open>handleLoad\<close> and
  \<open>handleError\<close> at the new address) and the element is appended to the head.
\<close>

definition effect_new :: "nat \<Rightarrow> string \<Rightarrow> world \<Rightarrow> world" where
  "effect_new h scriptUrl w =
     (let w1 = setError h None (setIsLoaded h False (setIsLoading h True w));
          e = length (elements w1);
          newRecord = \<lparr>status = Status_loading, scriptElement = e, subscribers = [h],
                       recordError = None\<rparr>
      in w1\<lparr>elements := elements w1 @ [\<lparr>src = scriptUrl, async = True\<rparr>],
            records := (records w1)(e := newRecord),
            scriptStates := (scriptStates w1)(scriptUrl \<mapsto> e),
            head := head w1 @ [e]\<rparr>)"

definition effect :: "nat \<Rightarrow> string option \<Rightarrow> world \<Rightarrow> world" where
  "effect h scriptUrl w =
     (if falsy scriptUrl then
        setIsLoaded h False
          (setError h (Some (Error ''scriptUrl cannot be empty'')) (setIsLoading h False w))
      else
        (case scriptStates w (the scriptUrl) of
           Some a \<Rightarrow> effect_existing h a w
         | None \<Rightarrow> effect_new h (the scriptUrl) w))"

subsection \<open>The cleanup returned by the effect (lines 95 to 107)\<close>

text \<open>
  The effect returns a cleanup only on the path of a non-empty URL, so the cleanup takes a
  string. \<^verbatim>\<open>document.head.removeChild\<close> runs when the element has a parent.
\<close>

definition cleanup :: "nat \<Rightarrow> string \<Rightarrow> world \<Rightarrow> world" where
  "cleanup h scriptUrl w =
     (case scriptStates w scriptUrl of
        None \<Rightarrow> w
      | Some a \<Rightarrow>
          (let w1 = w\<lparr>records := (records w)(a := (records w a)
                        \<lparr>subscribers := Set_delete h (subscribers (records w a))\<rparr>)\<rparr>;
               currentRecord = records w1 a
           in if length (subscribers currentRecord) = 0
                 \<and> status currentRecord \<noteq> Status_loading
              then
                (let w2 = (if scriptElement currentRecord \<in> set (head w1)
                           then w1\<lparr>head := removeAll (scriptElement currentRecord) (head w1)\<rparr>
                           else w1)
                 in w2\<lparr>scriptStates := (scriptStates w2)(scriptUrl := None)\<rparr>)
              else w1))"

subsection \<open>Runs of the system\<close>

text \<open>
  What can happen to the world: a hook instance renders, an effect of a hook instance
  runs, a cleanup runs, or the browser dispatches \<^verbatim>\<open>load\<close> or \<^verbatim>\<open>error\<close> on a script element
  that exists, which calls the listener attached when the element was created.
\<close>

datatype action =
    Render nat "string option"
  | Effect nat "string option"
  | Cleanup nat string
  | Load nat
  | ErrorEvent nat

fun step :: "action \<Rightarrow> world \<Rightarrow> world" where
  "step (Render h scriptUrl) w = snd (useLazyScriptLoader h scriptUrl w)"
| "step (Effect h scriptUrl) w = effect h scriptUrl w"
| "step (Cleanup h scriptUrl) w = cleanup h scriptUrl w"
| "step (Load e) w = (if e < length (elements w) then handleLoad e w else w)"
| "step (ErrorEvent e) w =
     (if e < length (elements w) then handleError e (src (elements w ! e)) w else w)"

definition run :: "action list \<Rightarrow> world \<Rightarrow> world" where
  "run as w = fold step as w"

text \<open>The number of script elements created for a URL: its fetch initiations.\<close>

definition fetches :: "string \<Rightarrow> world \<Rightarrow> nat" where
  "fetches k w = length (filter (\<lambda>e. src e = k) (elements w))"

subsection \<open>The order of effects and events\<close>







subsection \<open>Auxiliary notions for the statements\<close>

text \<open>What \<open>subscriber\<close> writes into the three cells for a given status update.\<close>

definition view_of :: "status_update \<Rightarrow> hook_state" where
  "view_of u =
     (if loaded u then \<lparr>isLoading = False, error = None, isLoaded = True\<rparr>
      else if errorObj u \<noteq> None then \<lparr>isLoading = False, error = errorObj u, isLoaded = False\<rparr>
      else \<lparr>isLoading = True, error = None, isLoaded = False\<rparr>)"

text \<open>
  How the \<^verbatim>\<open>Map\<close> sits in the world: the record stored under a URL lives at the address of
  an element that was created, that element has the URL as its \<^verbatim>\<open>src\<close>, the record points
  to it, and it is a child of the head.
\<close>

definition registry_ok :: "world \<Rightarrow> bool" where
  "registry_ok w =
     (\<forall>k a. scriptStates w k = Some a \<longrightarrow>
        a < length (elements w) \<and> src (elements w ! a) = k
        \<and> scriptElement (records w a) = a \<and> a \<in> set (head w))"








section \<open>Closed forms of the operations\<close>

lemma setters_all:
  "setError h e (setIsLoaded h b (setIsLoading h c w)) =
     w\<lparr>hooks := (hooks w)(h \<mapsto> \<lparr>isLoading = c, error = e, isLoaded = b\<rparr>)\<rparr>"
  by (cases "cells h w") (simp add: setError_def setIsLoaded_def setIsLoading_def cells_def)

lemma setters_all_empty:
  "setIsLoaded h b (setError h e (setIsLoading h c w)) =
     w\<lparr>hooks := (hooks w)(h \<mapsto> \<lparr>isLoading = c, error = e, isLoaded = b\<rparr>)\<rparr>"
  by (cases "cells h w") (simp add: setError_def setIsLoaded_def setIsLoading_def cells_def)

lemma subscriber_eq:
  "subscriber h u w = w\<lparr>hooks := (hooks w)(h \<mapsto> view_of u)\<rparr>"
  by (simp add: subscriber_def view_of_def setters_all)

lemma forEach_subscriber:
  "forEach xs (\<lambda>sub. subscriber sub u) w =
     w\<lparr>hooks := (\<lambda>h. if h \<in> set xs then Some (view_of u) else hooks w h)\<rparr>"
proof (induction xs arbitrary: w)
  case Nil
  show ?case by (simp add: forEach_def)
next
  case (Cons x xs)
  have "forEach (x # xs) (\<lambda>sub. subscriber sub u) w =
        forEach xs (\<lambda>sub. subscriber sub u) (subscriber x u w)"
    by (simp add: forEach_def)
  also have "\<dots> = w\<lparr>hooks := (\<lambda>h. if h \<in> set (x # xs) then Some (view_of u) else hooks w h)\<rparr>"
    unfolding Cons.IH by (auto simp add: subscriber_eq fun_eq_iff)
  finally show ?case .
qed

lemma handleLoad_eq:
  "handleLoad a w =
     w\<lparr>records := (records w)(a := (records w a)\<lparr>status := Status_loaded\<rparr>),
       hooks := (\<lambda>h. if h \<in> set (subscribers (records w a))
                      then Some \<lparr>isLoading = False, error = None, isLoaded = True\<rparr>
                      else hooks w h)\<rparr>"
  by (simp add: handleLoad_def Let_def forEach_subscriber view_of_def cong: if_cong)

lemma handleError_eq:
  "handleError a k w =
     w\<lparr>records := (records w)(a := (records w a)
          \<lparr>status := Status_error, recordError := Some (Error (''Failed to load script: '' @ k))\<rparr>),
       hooks := (\<lambda>h. if h \<in> set (subscribers (records w a))
                      then Some \<lparr>isLoading = False,
                                 error = Some (Error (''Failed to load script: '' @ k)),
                                 isLoaded = False\<rparr>
                      else hooks w h)\<rparr>"
  by (simp add: handleError_def Let_def forEach_subscriber view_of_def cong: if_cong)

lemma effect_falsy_eq:
  "falsy u \<Longrightarrow> effect h u w =
     w\<lparr>hooks := (hooks w)(h \<mapsto> \<lparr>isLoading = False,
         error = Some (Error ''scriptUrl cannot be empty''), isLoaded = False\<rparr>)\<rparr>"
  by (simp add: effect_def setters_all_empty)

lemma effect_new_eq:
  "effect_new h k w =
     w\<lparr>scriptStates := (scriptStates w)(k \<mapsto> length (elements w)),
       records := (records w)(length (elements w) :=
          \<lparr>status = Status_loading, scriptElement = length (elements w), subscribers = [h],
           recordError = None\<rparr>),
       elements := elements w @ [\<lparr>src = k, async = True\<rparr>],
       head := head w @ [length (elements w)],
       hooks := (hooks w)(h \<mapsto> \<lparr>isLoading = True, error = None, isLoaded = False\<rparr>)\<rparr>"
  by (simp add: effect_new_def setters_all Let_def)

lemma effect_existing_eq:
  "effect_existing h a w =
     (case status (records w a) of
        Status_loaded \<Rightarrow>
          w\<lparr>hooks := (hooks w)(h \<mapsto> \<lparr>isLoading = False, error = None, isLoaded = True\<rparr>)\<rparr>
      | Status_error \<Rightarrow>
          w\<lparr>hooks := (hooks w)(h \<mapsto> \<lparr>isLoading = False, error = recordError (records w a),
                                       isLoaded = False\<rparr>)\<rparr>
      | Status_loading \<Rightarrow>
          w\<lparr>records := (records w)(a := (records w a)
               \<lparr>subscribers := Set_add h (subscribers (records w a))\<rparr>),
            hooks := (hooks w)(h \<mapsto> \<lparr>isLoading = True, error = None, isLoaded = False\<rparr>)\<rparr>)"
  by (simp add: effect_existing_def setters_all Let_def split: status.splits)

lemma cleanup_eq:
  "scriptStates w k = Some a \<Longrightarrow> cleanup h k w =
     (if removeAll h (subscribers (records w a)) = [] \<and> status (records w a) \<noteq> Status_loading
      then w\<lparr>scriptStates := (scriptStates w)(k := None),
             records := (records w)(a := (records w a)\<lparr>subscribers := []\<rparr>),
             head := removeAll (scriptElement (records w a)) (head w)\<rparr>
      else w\<lparr>records := (records w)(a := (records w a)
                \<lparr>subscribers := removeAll h (subscribers (records w a))\<rparr>)\<rparr>)"
  by (simp add: cleanup_def Let_def Set_delete_def)

lemma cleanup_none: "scriptStates w k = None \<Longrightarrow> cleanup h k w = w"
  by (simp add: cleanup_def)

lemma effect_some_eq:
  "k \<noteq> [] \<Longrightarrow> effect h (Some k) w =
     (case scriptStates w k of Some a \<Rightarrow> effect_existing h a w | None \<Rightarrow> effect_new h k w)"
  by (simp add: effect_def falsy_def split: option.splits)

lemma run_Nil: "run [] w = w"
  by (simp add: run_def)

lemma run_Cons: "run (act # as) w = run as (step act w)"
  by (simp add: run_def)

lemma run_append: "run (as @ bs) w = run bs (run as w)"
  by (simp add: run_def)


lemma render_world:
  "scriptStates (snd (useLazyScriptLoader h scriptUrl w)) = scriptStates w
   \<and> records (snd (useLazyScriptLoader h scriptUrl w)) = records w
   \<and> elements (snd (useLazyScriptLoader h scriptUrl w)) = elements w
   \<and> head (snd (useLazyScriptLoader h scriptUrl w)) = head w
   \<and> cells h2 (snd (useLazyScriptLoader h scriptUrl w)) = cells h2 w"
  by (simp add: useLazyScriptLoader_def cells_def split: option.splits)

lemmas eval_defs = run_def effect_def falsy_def effect_new_eq effect_existing_eq
  initial_world_def Set_add_def cleanup_def Set_delete_def handleLoad_eq handleError_eq
  Let_def cells_def useState_initial_def

section \<open>One fetch per record\<close>

lemma registry_okI:
  assumes "\<And>k a. scriptStates w k = Some a \<Longrightarrow>
             a < length (elements w) \<and> src (elements w ! a) = k
             \<and> scriptElement (records w a) = a \<and> a \<in> set (head w)"
  shows "registry_ok w"
  using assms by (simp add: registry_ok_def)

lemma registry_okD:
  assumes "registry_ok w" and "scriptStates w k = Some a"
  shows "a < length (elements w) \<and> src (elements w ! a) = k
       \<and> scriptElement (records w a) = a \<and> a \<in> set (head w)"
  using assms by (simp add: registry_ok_def)

lemma registry_ok_initial: "registry_ok initial_world"
  by (simp add: registry_ok_def initial_world_def)

lemma registry_ok_hooks:
  assumes "registry_ok w"
  shows "registry_ok (w\<lparr>hooks := f\<rparr>)"
  using assms by (simp add: registry_ok_def)

lemma registry_ok_effect_new:
  assumes ok: "registry_ok w" and n: "scriptStates w k = None"
  shows "registry_ok (effect_new h k w)"
proof (rule registry_okI)
  fix k0 a0
  assume s: "scriptStates (effect_new h k w) k0 = Some a0"
  show "a0 < length (elements (effect_new h k w))
      \<and> src (elements (effect_new h k w) ! a0) = k0
      \<and> scriptElement (records (effect_new h k w) a0) = a0
      \<and> a0 \<in> set (head (effect_new h k w))"
  proof (cases "k0 = k")
    case True
    with s have "a0 = length (elements w)" by (simp add: effect_new_eq)
    with True show ?thesis by (simp add: effect_new_eq)
  next
    case False
    with s have "scriptStates w k0 = Some a0" by (simp add: effect_new_eq)
    from registry_okD [OF ok this] show ?thesis
      by (simp add: effect_new_eq nth_append)
  qed
qed

lemma registry_ok_effect_existing:
  assumes ok: "registry_ok w"
  shows "registry_ok (effect_existing h a w)"
proof (rule registry_okI)
  fix k0 a0
  assume s: "scriptStates (effect_existing h a w) k0 = Some a0"
  have same: "scriptStates (effect_existing h a w) = scriptStates w"
    "elements (effect_existing h a w) = elements w"
    "head (effect_existing h a w) = head w"
    "scriptElement (records (effect_existing h a w) a0) = scriptElement (records w a0)"
    by (cases "status (records w a)"; simp add: effect_existing_eq)+
  from s have "scriptStates w k0 = Some a0" by (simp add: same)
  from registry_okD [OF ok this]
  show "a0 < length (elements (effect_existing h a w))
      \<and> src (elements (effect_existing h a w) ! a0) = k0
      \<and> scriptElement (records (effect_existing h a w) a0) = a0
      \<and> a0 \<in> set (head (effect_existing h a w))"
    by (simp add: same)
qed

lemma registry_ok_cleanup:
  assumes ok: "registry_ok w"
  shows "registry_ok (cleanup h u w)"
proof (cases "scriptStates w u")
  case None
  with ok show ?thesis by (simp add: cleanup_none)
next
  case (Some a)
  note own = registry_okD [OF ok Some]
  show ?thesis
  proof (rule registry_okI)
    fix k0 a0
    assume s: "scriptStates (cleanup h u w) k0 = Some a0"
    have old: "scriptStates w k0 = Some a0"
      using s Some by (simp add: cleanup_eq split: if_splits)
    note p = registry_okD [OF ok old]
    show "a0 < length (elements (cleanup h u w))
        \<and> src (elements (cleanup h u w) ! a0) = k0
        \<and> scriptElement (records (cleanup h u w) a0) = a0
        \<and> a0 \<in> set (head (cleanup h u w))"
    proof (cases "removeAll h (subscribers (records w a)) = []
                  \<and> status (records w a) \<noteq> Status_loading")
      case True
      with s Some have "k0 \<noteq> u" by (auto simp add: cleanup_eq)
      with own p have "a0 \<noteq> a" by auto
      with True Some own p show ?thesis by (simp add: cleanup_eq)
    next
      case False
      with Some p show ?thesis by (auto simp add: cleanup_eq)
    qed
  qed
qed

lemma fetches_step:
  "fetches k (step act w) =
     (if k \<noteq> [] \<and> scriptStates w k = None \<and> (\<exists>h. act = Effect h (Some k))
      then fetches k w + 1 else fetches k w)"
proof (cases act)
  case (Render h u)
  then show ?thesis by (simp add: render_world fetches_def)
next
  case (Effect h u)
  show ?thesis
  proof (cases "falsy u")
    case True
    then have "u \<noteq> Some k \<or> k = []" by (auto simp add: falsy_def)
    with True Effect show ?thesis
      by (auto simp add: effect_falsy_eq fetches_def)
  next
    case False
    then obtain k' where u: "u = Some k'" and k': "k' \<noteq> []"
      by (cases u) (auto simp add: falsy_def)
    show ?thesis
      using Effect u k'
      by (auto simp add: effect_some_eq effect_existing_eq effect_new_eq fetches_def
          split: option.splits status.splits)
  qed
next
  case (Cleanup h u)
  then show ?thesis
    by (cases "scriptStates w u") (auto simp add: cleanup_none cleanup_eq fetches_def)
next
  case (Load e)
  then show ?thesis by (simp add: handleLoad_eq fetches_def)
next
  case (ErrorEvent e)
  then show ?thesis by (simp add: handleError_eq fetches_def)
qed

lemma registry_ok_step:
  assumes "registry_ok w"
  shows "registry_ok (step act w)"
proof (cases act)
  case (Render h u)
  with assms show ?thesis by (simp add: registry_ok_def render_world)
next
  case (Effect h u)
  show ?thesis
  proof (cases "falsy u")
    case True
    with Effect assms show ?thesis by (simp add: effect_falsy_eq registry_ok_hooks)
  next
    case False
    then obtain k where u: "u = Some k" and k: "k \<noteq> []"
      by (cases u) (auto simp add: falsy_def)
    show ?thesis
    proof (cases "scriptStates w k")
      case None
      with Effect u k assms show ?thesis
        by (simp add: effect_some_eq registry_ok_effect_new)
    next
      case (Some a)
      with Effect u k assms show ?thesis
        by (simp add: effect_some_eq registry_ok_effect_existing)
    qed
  qed
next
  case (Cleanup h u)
  with assms show ?thesis by (simp add: registry_ok_cleanup)
next
  case (Load e)
  with assms show ?thesis by (simp add: registry_ok_def handleLoad_eq)
next
  case (ErrorEvent e)
  with assms show ?thesis by (simp add: registry_ok_def handleError_eq)
qed

lemma registry_ok_run:
  assumes "registry_ok w"
  shows "registry_ok (run as w)"
  using assms
proof (induction as arbitrary: w)
  case Nil
  then show ?case by (simp add: run_Nil)
next
  case (Cons act as)
  then show ?case by (simp add: run_Cons registry_ok_step)
qed

text \<open>
  A record in status loading stays in the \<^verbatim>\<open>Map\<close>, in status loading, under every action
  that is not a completion event of its own element.
\<close>

lemma pending_step:
  assumes "registry_ok w" and "scriptStates w k = Some a"
    and "status (records w a) = Status_loading"
    and "act \<noteq> Load a" and "act \<noteq> ErrorEvent a"
  shows "scriptStates (step act w) k = Some a
       \<and> status (records (step act w) a) = Status_loading"
proof (cases act)
  case (Render h u)
  with assms show ?thesis by (simp add: render_world)
next
  case (Effect h u)
  show ?thesis
  proof (cases "falsy u")
    case True
    with Effect assms show ?thesis by (simp add: effect_falsy_eq)
  next
    case False
    then obtain k' where u: "u = Some k'" and k': "k' \<noteq> []"
      by (cases u) (auto simp add: falsy_def)
    show ?thesis
    proof (cases "scriptStates w k'")
      case None
      with Effect u k' assms show ?thesis
        by (auto simp add: effect_some_eq effect_new_eq)
    next
      case (Some b)
      with Effect u k' assms show ?thesis
        by (cases "status (records w b)")
           (auto simp add: effect_some_eq effect_existing_eq)
    qed
  qed
next
  case (Cleanup h u)
  show ?thesis
  proof (cases "scriptStates w u")
    case None
    with Cleanup assms show ?thesis by (simp add: cleanup_none)
  next
    case (Some b)
    with Cleanup assms show ?thesis
      by (auto simp add: cleanup_eq)
  qed
next
  case (Load e)
  with assms show ?thesis by (simp add: handleLoad_eq)
next
  case (ErrorEvent e)
  with assms show ?thesis by (simp add: handleError_eq)
qed

lemma pending_run:
  assumes "\<forall>act \<in> set as. act \<noteq> Load a \<and> act \<noteq> ErrorEvent a"
    and "registry_ok w" and "scriptStates w k = Some a"
    and "status (records w a) = Status_loading"
  shows "scriptStates (run as w) k = Some a
       \<and> status (records (run as w) a) = Status_loading
       \<and> fetches k (run as w) = fetches k w"
  using assms
proof (induction as arbitrary: w)
  case Nil
  then show ?case by (simp add: run_Nil)
next
  case (Cons act as)
  have n: "act \<noteq> Load a" "act \<noteq> ErrorEvent a"
    using Cons.prems(1) by simp_all
  have s: "scriptStates (step act w) k = Some a
       \<and> status (records (step act w) a) = Status_loading"
    using pending_step [OF Cons.prems(2) Cons.prems(3) Cons.prems(4) n] .
  have f: "fetches k (step act w) = fetches k w"
    using Cons.prems(3) by (simp add: fetches_step)
  have "scriptStates (run as (step act w)) k = Some a
       \<and> status (records (run as (step act w)) a) = Status_loading
       \<and> fetches k (run as (step act w)) = fetches k (step act w)"
    using Cons.prems(1) Cons.prems(2) s by (intro Cons.IH) (simp_all add: registry_ok_step)
  with f show ?case by (simp add: run_Cons)
qed

text \<open>
  Claim C1. Take a world reached by a run from the initial world and a non-empty URL \<open>k\<close>
  that has no record in it. Let a hook subscribe to \<open>k\<close>, and let any actions follow
  (renders, subscriptions and unsubscriptions of any hooks for \<open>k\<close> or for other URLs,
  events of other elements), in any number and order, except the completion events of the
  element created for \<open>k\<close>. Then exactly one script element has been created for \<open>k\<close>; it
  has \<open>k\<close> as its \<^verbatim>\<open>src\<close> and is a child of the head, and the record of \<open>k\<close> is still the one
  created by the first subscription, in status loading. Moreover in every world and for
  every action the number of elements created for \<open>k\<close> grows, by one, exactly when a
  subscription to \<open>k\<close> finds no record: a fetch is started once in the lifetime of a
  record. The registry \<open>scriptStates\<close> is a map, as the \<^verbatim>\<open>Map\<close> of the source is, so it holds
  at most one record for a URL.
\<close>

theorem one_fetch_while_pending:
  assumes "w = run as1 initial_world" and "k \<noteq> []" and "scriptStates w k = None"
    and "\<forall>act \<in> set as2. act \<noteq> Load (length (elements w))
                        \<and> act \<noteq> ErrorEvent (length (elements w))"
  shows "fetches k (run as2 (effect h (Some k) w)) = fetches k w + 1
       \<and> scriptStates (run as2 (effect h (Some k) w)) k = Some (length (elements w))
       \<and> status (records (run as2 (effect h (Some k) w)) (length (elements w)))
           = Status_loading
       \<and> src (elements (run as2 (effect h (Some k) w)) ! length (elements w)) = k
       \<and> length (elements w) \<in> set (head (run as2 (effect h (Some k) w)))
       \<and> fetches k (step act2 w2) =
           (if scriptStates w2 k = None \<and> (\<exists>h2. act2 = Effect h2 (Some k))
            then fetches k w2 + 1 else fetches k w2)"
proof -
  let ?w1 = "effect h (Some k) w"
  let ?a = "length (elements w)"
  have ok: "registry_ok w"
    unfolding assms(1) by (rule registry_ok_run [OF registry_ok_initial])
  have st: "?w1 = step (Effect h (Some k)) w" by simp
  have ok1: "registry_ok ?w1"
    unfolding st by (rule registry_ok_step [OF ok])
  have w1: "?w1 = effect_new h k w"
    using assms(2,3) by (simp add: effect_some_eq)
  have a: "scriptStates ?w1 k = Some ?a"
    and b: "status (records ?w1 ?a) = Status_loading"
    and c: "elements ?w1 = elements w @ [\<lparr>src = k, async = True\<rparr>]"
    unfolding w1 by (simp_all add: effect_new_eq)
  have r: "scriptStates (run as2 ?w1) k = Some ?a
       \<and> status (records (run as2 ?w1) ?a) = Status_loading
       \<and> fetches k (run as2 ?w1) = fetches k ?w1"
    using pending_run [OF assms(4) ok1 a b] .
  have f: "fetches k ?w1 = fetches k w + 1"
    using c by (simp add: fetches_def)
  have "registry_ok (run as2 ?w1)"
    by (rule registry_ok_run [OF ok1])
  from registry_okD [OF this conjunct1 [OF r]]
  have e: "src (elements (run as2 ?w1) ! ?a) = k \<and> ?a \<in> set (head (run as2 ?w1))"
    by simp
  show ?thesis
    using r f e assms(2) by (simp add: fetches_step)
qed

theorem one_fetch_while_pending_witness:
  "fetches ''https://x/s.js''
     (run [Render 2 (Some ''https://x/s.js''), Effect 2 (Some ''https://x/s.js''),
           Effect 4 (Some ''https://x/t.js''), Cleanup 1 ''https://x/s.js'',
           Load 1, Effect 3 (Some ''https://x/s.js'')]
        (effect 1 (Some ''https://x/s.js'') initial_world)) = 1"
proof -
  have i: "initial_world = run [] initial_world" by (simp add: run_def)
  have k: "''https://x/s.js'' \<noteq> []" by simp
  have n: "scriptStates initial_world ''https://x/s.js'' = None"
    by (simp add: initial_world_def)
  have o: "\<forall>act \<in> set [Render 2 (Some ''https://x/s.js''), Effect 2 (Some ''https://x/s.js''),
           Effect 4 (Some ''https://x/t.js''), Cleanup 1 ''https://x/s.js'',
           Load 1, Effect 3 (Some ''https://x/s.js'')].
             act \<noteq> Load (length (elements initial_world))
             \<and> act \<noteq> ErrorEvent (length (elements initial_world))"
    by (simp add: initial_world_def)
  have "fetches ''https://x/s.js'' initial_world = 0"
    by (simp add: fetches_def initial_world_def)
  with one_fetch_while_pending [OF i k n o, of 1] show ?thesis by simp
qed

section \<open>Completion of the fetch\<close>

text \<open>
  Claim C6. Let \<open>k\<close> have the record at address \<open>a\<close>, in status loading, and let \<open>h\<close> be
  one of its subscribers. When the load handler of that record runs, \<open>h\<close> sees isLoading
  false, isLoaded true and no error, and the record is in status loaded. When its error
  handler runs, the record is in status error with a failure stored in it, and \<open>h\<close> sees
  isLoading false, isLoaded false and that same failure as its error.
\<close>

theorem completion_notifies_every_subscriber:
  assumes "scriptStates w k = Some a"
    and "status (records w a) = Status_loading"
    and "h \<in> set (subscribers (records w a))"
  shows "hooks (handleLoad a w) h = Some \<lparr>isLoading = False, error = None, isLoaded = True\<rparr>
       \<and> status (records (handleLoad a w) a) = Status_loaded
       \<and> hooks (handleError a k w) h =
           Some \<lparr>isLoading = False, error = recordError (records (handleError a k w) a),
                 isLoaded = False\<rparr>
       \<and> recordError (records (handleError a k w) a) \<noteq> None
       \<and> status (records (handleError a k w) a) = Status_error"
  using assms by (simp add: handleLoad_eq handleError_eq)

theorem completion_notifies_every_subscriber_witness:
  "hooks (handleLoad 0 (run [Effect 1 (Some ''https://x/s.js''), Effect 2 (Some ''https://x/s.js'')]
            initial_world)) 2
     = Some \<lparr>isLoading = False, error = None, isLoaded = True\<rparr>
   \<and> hooks (handleError 0 ''https://x/s.js''
             (run [Effect 1 (Some ''https://x/s.js''), Effect 2 (Some ''https://x/s.js'')]
                initial_world)) 1
     = Some \<lparr>isLoading = False,
             error = Some (Error ''Failed to load script: https://x/s.js''),
             isLoaded = False\<rparr>"
proof -
  let ?w = "run [Effect 1 (Some ''https://x/s.js''), Effect 2 (Some ''https://x/s.js'')]
              initial_world"
  have r: "scriptStates ?w ''https://x/s.js'' = Some 0"
    by (simp add: eval_defs)
  have s: "status (records ?w 0) = Status_loading"
    by (simp add: eval_defs)
  have m: "2 \<in> set (subscribers (records ?w 0))"
    by (simp add: eval_defs)
  have n: "1 \<in> set (subscribers (records ?w 0))"
    by (simp add: eval_defs)
  have e: "recordError (records (handleError 0 ''https://x/s.js'' ?w) 0)
             = Some (Error ''Failed to load script: https://x/s.js'')"
    by (simp add: handleError_eq)
  from completion_notifies_every_subscriber [OF r s m]
       completion_notifies_every_subscriber [OF r s n] e
  show ?thesis by simp
qed

section \<open>Subscribing to a record that exists\<close>

text \<open>
  When the record of a URL is no longer loading, the effect writes the view and leaves
  the record, the \<^verbatim>\<open>Map\<close> and the head as they are: the \<^verbatim>\<open>loaded\<close> and \<^verbatim>\<open>error\<close> cases of
  the \<^verbatim>\<open>switch\<close> have no \<^verbatim>\<open>record.subscribers.add(subscriber)\<close>, the \<^verbatim>\<open>loading\<close> case has it.
\<close>

lemma late_effect_leaves_record:
  assumes "k \<noteq> []" and "scriptStates w k = Some a"
    and "status (records w a) \<noteq> Status_loading"
  shows "records (effect h (Some k) w) = records w
       \<and> scriptStates (effect h (Some k) w) = scriptStates w
       \<and> head (effect h (Some k) w) = head w"
  using assms
  by (cases "status (records w a)") (simp_all add: effect_some_eq effect_existing_eq)

lemma loading_effect_registers:
  assumes "k \<noteq> []" and "scriptStates w k = Some a"
    and "status (records w a) = Status_loading"
  shows "h \<in> set (subscribers (records (effect h (Some k) w) a))"
  using assms by (simp add: effect_some_eq effect_existing_eq Set_add_def)

text \<open>
  Claim C2, evaluated on the code. Hook 1 subscribes to the URL and the script loads; the
  record is in status loaded with the subscribers \<open>[1]\<close>. Hook 2 then subscribes: it sees
  the loaded view at once, but the subscribers of the record are still \<open>[1]\<close>. The same
  happens for a record in status error.
\<close>

theorem late_subscriber_not_registered:
  "status (records (run [Effect 1 (Some ''https://x/s.js''), Load 0] initial_world) 0)
     = Status_loaded
   \<and> scriptStates (run [Effect 1 (Some ''https://x/s.js''), Load 0] initial_world)
       ''https://x/s.js'' = Some 0
   \<and> subscribers (records (run [Effect 1 (Some ''https://x/s.js''), Load 0,
                               Effect 2 (Some ''https://x/s.js'')] initial_world) 0) = [1]
   \<and> hooks (run [Effect 1 (Some ''https://x/s.js''), Load 0,
                 Effect 2 (Some ''https://x/s.js'')] initial_world) 2
       = Some \<lparr>isLoading = False, error = None, isLoaded = True\<rparr>
   \<and> subscribers (records (run [Effect 1 (Some ''https://x/bad.js''), ErrorEvent 0,
                               Effect 2 (Some ''https://x/bad.js'')] initial_world) 0) = [1]"
  by (simp add: eval_defs)

section \<open>Unsubscribing\<close>

text \<open>
  The cleanup counts the members of the \<^verbatim>\<open>Set\<close>: while another member is left in it,
  nothing is torn down.
\<close>

lemma cleanup_keeps_record_of_other_member:
  assumes "scriptStates w k = Some a"
    and "h2 \<in> set (subscribers (records w a))" and "h2 \<noteq> h"
  shows "scriptStates (cleanup h k w) = scriptStates w
       \<and> head (cleanup h k w) = head w
       \<and> h2 \<in> set (subscribers (records (cleanup h k w) a))"
proof -
  have "h2 \<in> set (removeAll h (subscribers (records w a)))"
    using assms(2,3) by simp
  then have "removeAll h (subscribers (records w a)) \<noteq> []"
    by (metis empty_iff empty_set)
  with assms(1,2,3) show ?thesis by (simp add: cleanup_eq)
qed

text \<open>
  Claim C3, evaluated on the code. Hook 1 subscribes to the URL, the script loads, hook 2
  subscribes to the same URL; the record is in the \<^verbatim>\<open>Map\<close> and the element in the head.
  Hook 1 then unsubscribes while hook 2 is still subscribed: the record is deleted and
  the element is removed from the head, while hook 2 goes on reporting the script as
  loaded.
\<close>

theorem teardown_while_late_subscriber_remains:
  "scriptStates (run [Effect 1 (Some ''https://x/s.js''), Load 0,
                      Effect 2 (Some ''https://x/s.js'')] initial_world) ''https://x/s.js''
     = Some 0
   \<and> head (run [Effect 1 (Some ''https://x/s.js''), Load 0,
                Effect 2 (Some ''https://x/s.js'')] initial_world) = [0]
   \<and> scriptStates (run [Effect 1 (Some ''https://x/s.js''), Load 0,
                        Effect 2 (Some ''https://x/s.js''), Cleanup 1 ''https://x/s.js'']
                     initial_world) ''https://x/s.js'' = None
   \<and> head (run [Effect 1 (Some ''https://x/s.js''), Load 0,
                Effect 2 (Some ''https://x/s.js''), Cleanup 1 ''https://x/s.js'']
             initial_world) = []
   \<and> hooks (run [Effect 1 (Some ''https://x/s.js''), Load 0,
                 Effect 2 (Some ''https://x/s.js''), Cleanup 1 ''https://x/s.js'']
              initial_world) 2
       = Some \<lparr>isLoading = False, error = None, isLoaded = True\<rparr>"
  by (simp add: eval_defs)

text \<open>
  Claim C4. Take a world reached by a run from the initial world. Let \<open>k\<close> be a non-empty
  URL whose record is in status loaded or error and has \<open>h\<close> as its only subscriber. After
  the cleanup of \<open>h\<close> the \<^verbatim>\<open>Map\<close> has no record for \<open>k\<close> and the script element of the old
  record is not in the head. A subscription to \<open>k\<close> that follows creates a new element,
  appends it to the head, and stores under \<open>k\<close>, at a new address, a new record in status
  loading with the new subscriber alone.
\<close>

theorem last_unsubscribe_tears_down:
  assumes "w = run as initial_world"
    and "k \<noteq> []" and "scriptStates w k = Some a"
    and "status (records w a) \<noteq> Status_loading"
    and "set (subscribers (records w a)) = {h}"
  shows "scriptStates (cleanup h k w) k = None
       \<and> scriptElement (records w a) \<notin> set (head (cleanup h k w))
       \<and> scriptStates (effect h2 (Some k) (cleanup h k w)) k = Some (length (elements w))
       \<and> length (elements w) \<noteq> a
       \<and> records (effect h2 (Some k) (cleanup h k w)) (length (elements w)) =
           \<lparr>status = Status_loading, scriptElement = length (elements w), subscribers = [h2],
            recordError = None\<rparr>
       \<and> elements (effect h2 (Some k) (cleanup h k w)) = elements w @ [\<lparr>src = k, async = True\<rparr>]
       \<and> head (effect h2 (Some k) (cleanup h k w)) =
           removeAll (scriptElement (records w a)) (head w) @ [length (elements w)]
       \<and> fetches k (effect h2 (Some k) (cleanup h k w)) = fetches k w + 1"
proof -
  have ok: "registry_ok w"
    unfolding assms(1) by (rule registry_ok_run [OF registry_ok_initial])
  have new: "length (elements w) \<noteq> a"
    using registry_okD [OF ok assms(3)] by simp
  have e: "removeAll h (subscribers (records w a)) = []"
    using assms(5) by (metis set_removeAll Diff_cancel set_empty)
  have c: "cleanup h k w =
      w\<lparr>scriptStates := (scriptStates w)(k := None),
        records := (records w)(a := (records w a)\<lparr>subscribers := []\<rparr>),
        head := removeAll (scriptElement (records w a)) (head w)\<rparr>"
    using assms(3,4) e by (simp add: cleanup_eq)
  show ?thesis
    unfolding c using assms(2) new
    by (simp add: effect_some_eq effect_new_eq fetches_def)
qed

theorem last_unsubscribe_tears_down_witness:
  "scriptStates (cleanup 1 ''https://x/s.js''
       (run [Effect 1 (Some ''https://x/s.js''), Load 0] initial_world)) ''https://x/s.js'' = None
   \<and> head (cleanup 1 ''https://x/s.js''
       (run [Effect 1 (Some ''https://x/s.js''), Load 0] initial_world)) = []
   \<and> scriptStates (effect 2 (Some ''https://x/s.js'') (cleanup 1 ''https://x/s.js''
       (run [Effect 1 (Some ''https://x/s.js''), Load 0] initial_world))) ''https://x/s.js''
      = Some 1"
proof -
  let ?w = "run [Effect 1 (Some ''https://x/s.js''), Load 0] initial_world"
  have k: "''https://x/s.js'' \<noteq> []" by simp
  have r: "scriptStates ?w ''https://x/s.js'' = Some 0" by (simp add: eval_defs)
  have s: "status (records ?w 0) \<noteq> Status_loading" by (simp add: eval_defs)
  have m: "set (subscribers (records ?w 0)) = {1}" by (simp add: eval_defs)
  have e: "length (elements ?w) = 1" by (simp add: eval_defs)
  have d: "head (cleanup 1 ''https://x/s.js'' ?w) = []"
    by (simp add: eval_defs)
  note t = last_unsubscribe_tears_down
    [where w = ?w and as = "[Effect 1 (Some ''https://x/s.js''), Load 0]"
       and k = "''https://x/s.js''" and a = 0 and h = 1 and ?h2.0 = 2, OF refl k r s m]
  from t have "scriptStates (cleanup 1 ''https://x/s.js'' ?w) ''https://x/s.js'' = None
     \<and> scriptStates (effect 2 (Some ''https://x/s.js'') (cleanup 1 ''https://x/s.js'' ?w))
          ''https://x/s.js'' = Some (length (elements ?w))"
    by blast
  with d show ?thesis by (simp only: e simp_thms)
qed

text \<open>
  Claim C5. Take a world reached by a run from the initial world in which \<open>k\<close> has the
  record at address \<open>a\<close>. If the record is in status loading, its script element is a
  child of the head; a cleanup for \<open>k\<close>, also the one of the last subscriber, leaves the
  \<^verbatim>\<open>Map\<close> and the head as they are and the record in status loading, and only removes the
  subscriber; and after every action other than a completion event of the element the
  record is still stored under \<open>k\<close>, in status loading, with its element in the head.
  And whenever an action takes the record of \<open>k\<close> out of the \<^verbatim>\<open>Map\<close>, the record was not in
  status loading and the action was a cleanup for \<open>k\<close> that left it without subscribers.
\<close>

theorem pending_record_never_torn_down:
  assumes "w = run as initial_world" and "scriptStates w k = Some a"
  shows "(status (records w a) = Status_loading \<longrightarrow>
            scriptElement (records w a) \<in> set (head w)
          \<and> scriptStates (cleanup h k w) = scriptStates w
          \<and> head (cleanup h k w) = head w
          \<and> status (records (cleanup h k w) a) = Status_loading
          \<and> subscribers (records (cleanup h k w) a) = removeAll h (subscribers (records w a))
          \<and> (act \<noteq> Load a \<and> act \<noteq> ErrorEvent a \<longrightarrow>
               scriptStates (step act w) k = Some a
             \<and> status (records (step act w) a) = Status_loading
             \<and> scriptElement (records (step act w) a) \<in> set (head (step act w))))
       \<and> (scriptStates (step act w) k \<noteq> Some a \<longrightarrow>
            status (records w a) \<noteq> Status_loading
          \<and> (\<exists>h2. act = Cleanup h2 k \<and> removeAll h2 (subscribers (records w a)) = []))"
proof -
  have ok: "registry_ok w"
    unfolding assms(1) by (rule registry_ok_run [OF registry_ok_initial])
  have ok1: "registry_ok (step act w)"
    by (rule registry_ok_step [OF ok])
  have inhead: "scriptElement (records w a) \<in> set (head w)"
    using registry_okD [OF ok assms(2)] by simp
  have kept: "scriptStates (cleanup h k w) = scriptStates w
          \<and> head (cleanup h k w) = head w
          \<and> status (records (cleanup h k w) a) = Status_loading
          \<and> subscribers (records (cleanup h k w) a) = removeAll h (subscribers (records w a))"
    if "status (records w a) = Status_loading"
    using that assms(2) by (simp add: cleanup_eq)
  have stays: "scriptStates (step act w) k = Some a
             \<and> status (records (step act w) a) = Status_loading
             \<and> scriptElement (records (step act w) a) \<in> set (head (step act w))"
    if l: "status (records w a) = Status_loading"
      and n: "act \<noteq> Load a" "act \<noteq> ErrorEvent a"
  proof -
    have p: "scriptStates (step act w) k = Some a
           \<and> status (records (step act w) a) = Status_loading"
      using pending_step [OF ok assms(2) l n] .
    with registry_okD [OF ok1 conjunct1 [OF p]] show ?thesis by simp
  qed
  have removed: "status (records w a) \<noteq> Status_loading
          \<and> (\<exists>h2. act = Cleanup h2 k \<and> removeAll h2 (subscribers (records w a)) = [])"
    if n: "scriptStates (step act w) k \<noteq> Some a"
  proof (cases act)
    case (Render h1 u)
    with n assms(2) show ?thesis by (simp add: render_world)
  next
    case (Effect h1 u)
    show ?thesis
    proof (cases "falsy u")
      case True
      with Effect n assms(2) show ?thesis by (simp add: effect_falsy_eq)
    next
      case False
      then obtain k' where u: "u = Some k'" and k': "k' \<noteq> []"
        by (cases u) (auto simp add: falsy_def)
      with Effect n assms(2) show ?thesis
        by (auto simp add: effect_some_eq effect_existing_eq effect_new_eq
            split: option.splits status.splits if_splits)
    qed
  next
    case (Cleanup h1 u)
    show ?thesis
    proof (cases "scriptStates w u")
      case None
      with Cleanup n assms(2) show ?thesis by (simp add: cleanup_none)
    next
      case (Some b)
      with Cleanup n assms(2) show ?thesis
        by (auto simp add: cleanup_eq split: if_splits)
    qed
  next
    case (Load e)
    with n assms(2) show ?thesis by (simp add: handleLoad_eq split: if_splits)
  next
    case (ErrorEvent e)
    with n assms(2) show ?thesis by (simp add: handleError_eq split: if_splits)
  qed
  from inhead kept stays removed show ?thesis by blast
qed

theorem pending_record_never_torn_down_witness:
  "scriptStates (cleanup 1 ''https://x/s.js''
       (run [Effect 1 (Some ''https://x/s.js'')] initial_world)) ''https://x/s.js'' = Some 0
   \<and> head (cleanup 1 ''https://x/s.js''
       (run [Effect 1 (Some ''https://x/s.js'')] initial_world)) = [0]
   \<and> subscribers (records (cleanup 1 ''https://x/s.js''
       (run [Effect 1 (Some ''https://x/s.js'')] initial_world)) 0) = []"
proof -
  let ?w = "run [Effect 1 (Some ''https://x/s.js'')] initial_world"
  have r: "scriptStates ?w ''https://x/s.js'' = Some 0" by (simp add: eval_defs)
  have s: "status (records ?w 0) = Status_loading" by (simp add: eval_defs)
  have h: "head ?w = [0]" by (simp add: eval_defs)
  have m: "subscribers (records ?w 0) = [1]" by (simp add: eval_defs)
  note t = pending_record_never_torn_down
    [where w = ?w and as = "[Effect 1 (Some ''https://x/s.js'')]" and k = "''https://x/s.js''"
       and a = 0 and h = 1 and act = "Cleanup 1 ''https://x/s.js''", OF refl r]
  from t s have "scriptStates (cleanup 1 ''https://x/s.js'' ?w) = scriptStates ?w
      \<and> head (cleanup 1 ''https://x/s.js'' ?w) = head ?w
      \<and> subscribers (records (cleanup 1 ''https://x/s.js'' ?w) 0)
          = removeAll 1 (subscribers (records ?w 0))"
    by blast
  then show ?thesis by (simp only: r h m removeAll.simps if_True simp_thms)
qed

section \<open>The absent or empty URL\<close>

text \<open>
  Claim C7 as stated fails: after the effect for the empty string, and for an absent URL,
  the error cell is not empty.
\<close>

theorem empty_key_reports_no_error_counterexample:
  "error (cells 0 (effect 0 (Some '''') initial_world)) \<noteq> None
   \<and> error (cells 0 (effect 0 None initial_world)) \<noteq> None"
  by (simp add: effect_falsy_eq falsy_def cells_def initial_world_def)

text \<open>
  Claim C7, amended. For an absent or empty URL the effect sets isLoading to false,
  isLoaded to false and the error to \<^verbatim>\<open>Error('scriptUrl cannot be empty')\<close>; it leaves the
  \<^verbatim>\<open>Map\<close>, the records, the created elements and the head as they are, so there is no
  registry interaction and no fetch.
\<close>

theorem empty_key_reports_error:
  assumes "falsy scriptUrl"
  shows "hooks (effect h scriptUrl w) h =
           Some \<lparr>isLoading = False, error = Some (Error ''scriptUrl cannot be empty''),
                 isLoaded = False\<rparr>
       \<and> scriptStates (effect h scriptUrl w) = scriptStates w
       \<and> records (effect h scriptUrl w) = records w
       \<and> elements (effect h scriptUrl w) = elements w
       \<and> head (effect h scriptUrl w) = head w"
  using assms by (simp add: effect_falsy_eq)

theorem empty_key_reports_error_witness:
  "hooks (effect 0 (Some '''') initial_world) 0 =
           Some \<lparr>isLoading = False, error = Some (Error ''scriptUrl cannot be empty''),
                 isLoaded = False\<rparr>
   \<and> elements (effect 0 (Some '''') initial_world) = []"
proof -
  have f: "falsy (Some '''')" by (simp add: falsy_def)
  from empty_key_reports_error [OF f, of 0 initial_world] show ?thesis
    by (simp add: initial_world_def)
qed

section \<open>The failure message\<close>

text \<open>
  Claim C8 as stated fails: after the fetch of \<^verbatim>\<open>https://x/bad.js\<close> has failed, the view of
  the subscriber is not the one with the message \<^verbatim>\<open>Error loading script: https://x/bad.js\<close>.
\<close>

theorem failure_message_counterexample:
  "hooks (run [Effect 1 (Some ''https://x/bad.js''), ErrorEvent 0] initial_world) 1
     \<noteq> Some \<lparr>isLoading = False,
              error = Some (Error ''Error loading script: https://x/bad.js''),
              isLoaded = False\<rparr>"
  by (simp add: eval_defs)

text \<open>
  Claim C8, amended. When a hook subscribes to a non-empty URL \<open>k\<close> without record and the
  browser dispatches \<^verbatim>\<open>error\<close> on the element created for it, the hook sees isLoading
  false, isLoaded false and the error with the message \<^verbatim>\<open>Failed to load script: \<close> followed
  by \<open>k\<close>; for \<^verbatim>\<open>https://x/bad.js\<close> that is \<^verbatim>\<open>Failed to load script: https://x/bad.js\<close>.
\<close>

theorem failure_message:
  assumes "k \<noteq> []" and "scriptStates w k = None"
  shows "hooks (run [Effect h (Some k), ErrorEvent (length (elements w))] w) h =
           Some \<lparr>isLoading = False, error = Some (Error (''Failed to load script: '' @ k)),
                 isLoaded = False\<rparr>"
  using assms
  by (simp add: run_def effect_some_eq effect_new_eq handleError_eq)

theorem failure_message_witness:
  "hooks (run [Effect 1 (Some ''https://x/bad.js''), ErrorEvent 0] initial_world) 1 =
     Some \<lparr>isLoading = False,
           error = Some (Error ''Failed to load script: https://x/bad.js''),
           isLoaded = False\<rparr>"
proof -
  have k: "''https://x/bad.js'' \<noteq> []" by simp
  have n: "scriptStates initial_world ''https://x/bad.js'' = None"
    by (simp add: initial_world_def)
  from failure_message [OF k n, of 1] show ?thesis
    by (simp add: initial_world_def)
qed

section \<open>The view and the URL\<close>







text \<open>The last stage of a notification is the world the handler leaves.\<close>

lemma subscriber_stages_last:
  "subscriber_stages h u w \<noteq> [] \<and> last (subscriber_stages h u w) = subscriber h u w"
  by (simp add: subscriber_stages_def subscriber_def)

lemma forEach_stages_last:
  "last (w # forEach_stages xs u w) = forEach xs (\<lambda>sub. subscriber sub u) w"
proof (induction xs arbitrary: w)
  case Nil
  show ?case by (simp add: forEach_def)
next
  case (Cons x xs)
  have "last (w # forEach_stages (x # xs) u w)
      = last (subscriber_stages x u w @ forEach_stages xs u (subscriber x u w))"
    using subscriber_stages_last [of x u w] by simp
  also have "\<dots> = last (subscriber x u w # forEach_stages xs u (subscriber x u w))"
    using subscriber_stages_last [of x u w]
    by (cases "forEach_stages xs u (subscriber x u w) = []") simp_all
  also have "\<dots> = forEach xs (\<lambda>sub. subscriber sub u) (subscriber x u w)"
    by (rule Cons.IH)
  finally show ?case by (simp add: forEach_def)
qed

lemma handleLoad_stages_last: "last (handleLoad_stages a w) = handleLoad a w"
  unfolding handleLoad_stages_def handleLoad_def Let_def
  by (rule forEach_stages_last)

lemma handleError_stages_last: "last (handleError_stages a k w) = handleError a k w"
  unfolding handleError_stages_def handleError_def Let_def
  by (rule forEach_stages_last)










































section \<open>The first render\<close>

text \<open>
  Claim C10. For a hook instance that has not rendered before, and for every argument,
  the render returns isLoading true, error null and isLoaded false. For an absent or
  empty URL the render that follows the effect returns isLoading false.
\<close>

theorem first_render_returns_initial_values:
  assumes "hooks w h = None"
  shows "fst (useLazyScriptLoader h scriptUrl w) =
           \<lparr>isLoading = True, error = None, isLoaded = False\<rparr>
       \<and> (falsy scriptUrl \<longrightarrow>
            isLoading (fst (useLazyScriptLoader h scriptUrl
              (effect h scriptUrl (snd (useLazyScriptLoader h scriptUrl w))))) = False)"
  using assms
  by (simp add: useLazyScriptLoader_def useState_initial_def effect_falsy_eq)

theorem first_render_returns_initial_values_witness:
  "fst (useLazyScriptLoader 0 (Some '''') initial_world) =
           \<lparr>isLoading = True, error = None, isLoaded = False\<rparr>
   \<and> fst (useLazyScriptLoader 0 None initial_world) =
           \<lparr>isLoading = True, error = None, isLoaded = False\<rparr>"
proof -
  have n: "hooks initial_world 0 = None" by (simp add: initial_world_def)
  from first_render_returns_initial_values [OF n, of "Some ''''"]
       first_render_returns_initial_values [OF n, of None]
  show ?thesis by simp
qed

end
